theory Spec2Isabelle
  imports Main "HOL-Library.AList"
begin

section \<open>JavaScript values, objects and the heap\<close>

text \<open>
  The engine of \<^verbatim>\<open>src/index.ts\<close> walks a graph of JavaScript values. Objects have
  identity and may be shared or cyclic, so a value refers to an object by its address in
  a heap. The values are the ones \<^verbatim>\<open>typeof\<close> tells apart in \<^verbatim>\<open>transform\<close>.
  Numbers are the integral ones (formatting of fractions is the text renderer's
  business). A function value carries what a call with no argument returns: the only
  call the engine ever makes on a value is \<^verbatim>\<open>replaced.toJSON()\<close>. Such a call is
  taken to return a value without failing and without changing the heap.
\<close>

type_synonym addr = nat

datatype jsval =
    VUndefined
  | VNull
  | VBool bool
  | VNum int
  | VStr string
  | VBigInt int
  | VSymbol nat
  | VFun jsval
  | VRef addr

datatype jstype =
  TUndefined | TObject | TBoolean | TNumber | TString | TBigint | TSymbol | TFunction

fun typeof :: "jsval \<Rightarrow> jstype" where
  "typeof VUndefined = TUndefined"
| "typeof VNull = TObject"
| "typeof (VBool b) = TBoolean"
| "typeof (VNum i) = TNumber"
| "typeof (VStr s) = TString"
| "typeof (VBigInt i) = TBigint"
| "typeof (VSymbol n) = TSymbol"
| "typeof (VFun r) = TFunction"
| "typeof (VRef a) = TObject"

text \<open>
  An object: whether \<^verbatim>\<open>Array.isArray\<close> holds of it, its indexed slots (\<open>None\<close> is an
  absent slot of a sparse array; the length of the list is \<^verbatim>\<open>length\<close>), its own
  enumerable string-keyed properties in the order of their creation, and the value of
  \<^verbatim>\<open>toJSON\<close> that the prototype chain supplies (\<open>VUndefined\<close> when there is none; a
  \<^verbatim>\<open>Date\<close> inherits a function there).
\<close>

datatype obj =
  Obj (is_array: bool) (slots: "jsval option list") (props: "(string \<times> jsval) list")
      (inherited_toJSON: jsval)

record 'u world =
  heap :: "obj list"
  user :: 'u

text \<open>
  Every reference a JavaScript program holds is valid. The lookup is total all the same:
  an address outside the heap reads as an empty plain object.
\<close>

definition obj_at :: "'u world \<Rightarrow> addr \<Rightarrow> obj" where
  "obj_at w a = (if a < length (heap w) then heap w ! a else Obj False [] [] VUndefined)"

text \<open>\<^verbatim>\<open>replaced.toJSON\<close>: an own property shadows the inherited one.\<close>

definition get_toJSON :: "obj \<Rightarrow> jsval" where
  "get_toJSON ob = (case map_of (props ob) ''toJSON'' of Some v \<Rightarrow> v | None \<Rightarrow> inherited_toJSON ob)"

text \<open>
  \<^verbatim>\<open>typeof replaced.toJSON === 'function'\<close> together with the call
  \<^verbatim>\<open>replaced.toJSON()\<close>: \<open>Some out\<close> when the object exposes the hook, \<open>out\<close> being what
  the hook returns.
\<close>

fun hook_result :: "jsval \<Rightarrow> jsval option" where
  "hook_result (VFun out) = Some out"
| "hook_result v = None"

definition obj_hook :: "obj \<Rightarrow> jsval option" where
  "obj_hook ob = hook_result (get_toJSON ob)"

text \<open>\<^verbatim>\<open>replaced[i]\<close> of an array: an absent slot reads as \<^verbatim>\<open>undefined\<close>.\<close>

fun slot_value :: "jsval option \<Rightarrow> jsval" where
  "slot_value None = VUndefined"
| "slot_value (Some v) = v"

text \<open>\<^verbatim>\<open>replaced[k]\<close> of a keyed object.\<close>

definition get_prop :: "obj \<Rightarrow> string \<Rightarrow> jsval" where
  "get_prop ob k = (case map_of (props ob) k of Some v \<Rightarrow> v | None \<Rightarrow> VUndefined)"

subsection \<open>Property enumeration order\<close>

text \<open>
  \<^verbatim>\<open>for (const k in replaced)\<close> filtered by \<^verbatim>\<open>hasOwnProperty\<close> visits the own
  enumerable string keys in the order JavaScript fixes for ordinary objects: the keys that
  are array indices (canonical decimal numerals below \<open>2^32 - 1\<close>) in ascending numeric
  order first, then the other keys in the order of their creation.
  \<^verbatim>\<open>String(i)\<close> is the decimal numeral of \<open>i\<close>.
\<close>

definition digit_char :: "nat \<Rightarrow> char" where
  "digit_char d = ''0123456789'' ! d"

fun string_of_nat :: "nat \<Rightarrow> string" where
  "string_of_nat n =
     (if n < 10 then [digit_char n] else string_of_nat (n div 10) @ [digit_char (n mod 10)])"

declare string_of_nat.simps [simp del]

definition is_digit :: "char \<Rightarrow> bool" where
  "is_digit c = (c \<in> set ''0123456789'')"

definition digit_value :: "char \<Rightarrow> nat" where
  "digit_value c = of_char c - 48"

definition decimal_value :: "string \<Rightarrow> nat" where
  "decimal_value s = foldl (\<lambda>n c. 10 * n + digit_value c) 0 s"

definition is_array_index :: "string \<Rightarrow> bool" where
  "is_array_index s =
     (s \<noteq> [] \<and> list_all is_digit s \<and> (s = ''0'' \<or> hd s \<noteq> CHR ''0'')
      \<and> decimal_value s < 4294967295)"

definition own_key_order :: "string list \<Rightarrow> string list" where
  "own_key_order ks =
     sort_key decimal_value (filter is_array_index (remdups ks))
     @ filter (\<lambda>k. \<not> is_array_index k) (remdups ks)"

definition for_in_keys :: "obj \<Rightarrow> string list" where
  "for_in_keys ob = own_key_order (map fst (props ob))"

section \<open>The replacer and the outcome of an asynchronous call\<close>

text \<open>
  The replacer is the caller's asynchronous function. It is called with the holder of
  the value as \<^verbatim>\<open>this\<close>, the key and the value; it may keep state of its own and create
  new objects, and it settles by returning a value or by rejecting. It is taken not to
  change the objects that already exist. The holder of the root is the synthetic object
  \<^verbatim>\<open>{ '': value }\<close> that \<^verbatim>\<open>asyncStringify\<close> builds; every other holder is a
  container of the graph.
\<close>

datatype exn = TypeError string | Rejected string

datatype holder = RootHolder jsval | Parent addr

type_synonym 'u replacer =
  "holder \<Rightarrow> string \<Rightarrow> jsval \<Rightarrow> 'u world \<Rightarrow> (exn + jsval) \<times> obj list \<times> 'u"

definition call_replacer ::
  "'u replacer \<Rightarrow> holder \<Rightarrow> string \<Rightarrow> jsval \<Rightarrow> 'u world \<Rightarrow> (exn + jsval) \<times> 'u world" where
  "call_replacer rep parent key val w =
     (case rep parent key val w of
        (r, new, u) \<Rightarrow> (r, \<lparr>heap = heap w @ new, user = u\<rparr>))"

text \<open>The identity transform \<^verbatim>\<open>async (_key, value) => value\<close>.\<close>

definition identity :: "'u replacer" where
  "identity parent key val w = (Inr val, [], user w)"

text \<open>
  A promise resolves (\<open>Done\<close>), rejects (\<open>Throw\<close>) or has not settled when the fuel of
  the model is used up (\<open>Pending\<close>).
\<close>

datatype 'a outcome = Done 'a | Throw exn | Pending

text \<open>
  A loop whose body is awaited: the elements are processed one after the other, each on
  the state the one before left, and the first that does not resolve ends the loop.
\<close>

fun each :: "('a \<Rightarrow> 's \<Rightarrow> 'b outcome \<times> 's) \<Rightarrow> 'a list \<Rightarrow> 's \<Rightarrow> 'b list outcome \<times> 's" where
  "each f [] s = (Done [], s)"
| "each f (x # xs) s =
     (case f x s of
        (Done y, s1) \<Rightarrow> (case each f xs s1 of (out, s2) \<Rightarrow> (map_outcome ((#) y) out, s2))
      | (Throw e, s1) \<Rightarrow> (Throw e, s1)
      | (Pending, s1) \<Rightarrow> (Pending, s1))"

section \<open>The resolved tree\<close>

text \<open>
  The containers \<^verbatim>\<open>transform\<close> builds (\<^verbatim>\<open>result = []\<close>, \<^verbatim>\<open>result = {}\<close>) are new and
  referenced from nowhere else, so they form a tree. Its leaves are the values
  \<^verbatim>\<open>transform\<close> returns as they are; such a leaf may refer to an object of the heap (the
  output of a serialization hook). A keyed node records its prototype when an assignment
  changed it (\<open>None\<close>: the default one).
\<close>

datatype rval =
    RVal jsval
  | RArray "rval list"
  | RObject "rval option" "(string \<times> rval) list"

text \<open>
  \<^verbatim>\<open>result[k] = transformed\<close> on an object made by \<^verbatim>\<open>{}\<close>. An assignment to the key
  \<^verbatim>\<open>__proto__\<close> runs the setter of \<^verbatim>\<open>Object.prototype\<close>: it defines no property, and
  makes the value the prototype when the value is an object or null. Any other key is
  updated in place when it exists and added last when it does not.
\<close>

fun object_or_null :: "rval \<Rightarrow> bool" where
  "object_or_null (RVal VNull) = True"
| "object_or_null (RVal (VRef a)) = True"
| "object_or_null (RVal (VFun r)) = True"
| "object_or_null (RVal v) = False"
| "object_or_null (RArray rs) = True"
| "object_or_null (RObject pr kvs) = True"

fun assign :: "rval \<Rightarrow> string \<Rightarrow> rval \<Rightarrow> rval" where
  "assign (RObject pr kvs) k v =
     (if k = ''__proto__'' then (if object_or_null v then RObject (Some v) kvs else RObject pr kvs)
      else RObject pr (AList.update k v kvs))"
| "assign r k v = r"

definition build_object :: "string list \<Rightarrow> rval list \<Rightarrow> rval" where
  "build_object ks rs = fold (\<lambda>(k, r) result. assign result k r) (zip ks rs) (RObject None [])"

section \<open>The transform engine\<close>

text \<open>
  \<^verbatim>\<open>transform\<close> of \<^verbatim>\<open>src/index.ts\<close>. The state is the \<^verbatim>\<open>WeakSet\<close> of visited
  objects and the world. The recursion need not end (a replacer can return a new
  container at every call), so the model takes fuel: the depth of recursion it may use.
  The \<^verbatim>\<open>finally\<close> block deletes the container from the set however the children ended.
\<close>

definition finally_delete ::
  "addr \<Rightarrow> 'a outcome \<times> (addr set \<times> 'u world) \<Rightarrow> 'a outcome \<times> (addr set \<times> 'u world)" where
  "finally_delete a res = (case res of (out, (visited, w)) \<Rightarrow> (out, (visited - {a}, w)))"

primrec transform ::
  "nat \<Rightarrow> 'u replacer \<Rightarrow> holder \<Rightarrow> string \<Rightarrow> jsval \<Rightarrow> addr set \<times> 'u world
     \<Rightarrow> rval outcome \<times> (addr set \<times> 'u world)" where
  "transform 0 rep parent key val st = (Pending, st)"
| "transform (Suc n) rep parent key val st =
     (case st of (visited, w) \<Rightarrow>
      (case call_replacer rep parent key val w of
        (Inl e, w1) \<Rightarrow> (Throw e, (visited, w1))
      | (Inr replaced, w1) \<Rightarrow>
          if typeof replaced = TBigint
          then (Throw (TypeError ''Do not know how to serialize a BigInt''), (visited, w1))
          else if replaced = VNull \<or> replaced = VUndefined \<or> typeof replaced = TString
                  \<or> typeof replaced = TNumber \<or> typeof replaced = TBoolean
                  \<or> typeof replaced = TFunction
          then (Done (RVal replaced), (visited, w1))
          else (case replaced of
                  VRef a \<Rightarrow>
                    (case obj_hook (obj_at w1 a) of
                       Some out \<Rightarrow> (Done (RVal out), (visited, w1))
                     | None \<Rightarrow>
                         if a \<in> visited
                         then (Throw (TypeError ''Converting circular structure to JSON''),
                               (visited, w1))
                         else finally_delete a
                           (if is_array (obj_at w1 a)
                            then (case each (\<lambda>(i, s). transform n rep (Parent a)
                                               (string_of_nat i) (slot_value s))
                                         (enumerate 0 (slots (obj_at w1 a)))
                                         (insert a visited, w1) of
                                    (out, st') \<Rightarrow> (map_outcome RArray out, st'))
                            else (case each (\<lambda>k. transform n rep (Parent a) k
                                               (get_prop (obj_at w1 a) k))
                                         (for_in_keys (obj_at w1 a))
                                         (insert a visited, w1) of
                                    (out, st') \<Rightarrow>
                                      (map_outcome (build_object (for_in_keys (obj_at w1 a))) out,
                                       st'))))
                | _ \<Rightarrow> (Done (RVal replaced), (visited, w1)))))"

section \<open>The text renderer\<close>

text \<open>
  \<^verbatim>\<open>JSON.stringify(transformedValue, null, space)\<close> is the platform's encoder, not code
  of this repository. It is modelled after its definition in the language standard
  (SerializeJSONProperty, SerializeJSONObject, SerializeJSONArray): the property's value
  is replaced by the result of its \<^verbatim>\<open>toJSON\<close> method once, when it has one; a bigint
  is a TypeError; undefined, functions and symbols have no rendering; an object that is
  already on the stack of objects being serialized is a TypeError; an array renders a
  slot without rendering as null and an object leaves such a member out. The same encoder
  is the reference the specification compares \<^verbatim>\<open>asyncStringify\<close> with.
\<close>

datatype json =
    JNull
  | JBool bool
  | JNum int
  | JStr string
  | JArr "json list"
  | JObj "(string \<times> json) list"

text \<open>
  The \<^verbatim>\<open>toJSON\<close> method of a value, looked up along the prototype chain. Arrays,
  functions and primitives inherit none.
\<close>

fun rhook :: "'u world \<Rightarrow> rval \<Rightarrow> jsval option" where
  "rhook w (RVal (VRef a)) = obj_hook (obj_at w a)"
| "rhook w (RVal v) = None"
| "rhook w (RArray rs) = None"
| "rhook w (RObject pr kvs) =
     (case map_of kvs ''toJSON'' of
        Some (RVal v) \<Rightarrow> hook_result v
      | Some r \<Rightarrow> None
      | None \<Rightarrow> (case pr of None \<Rightarrow> None | Some p \<Rightarrow> rhook w p))"

definition after_toJSON :: "'u world \<Rightarrow> rval \<Rightarrow> rval" where
  "after_toJSON w r = (case rhook w r of Some out \<Rightarrow> RVal out | None \<Rightarrow> r)"

fun primitive :: "jsval \<Rightarrow> exn + json option" where
  "primitive VNull = Inr (Some JNull)"
| "primitive (VBool b) = Inr (Some (JBool b))"
| "primitive (VNum i) = Inr (Some (JNum i))"
| "primitive (VStr s) = Inr (Some (JStr s))"
| "primitive (VBigInt i) = Inl (TypeError ''Do not know how to serialize a BigInt'')"
| "primitive v = Inr None"

text \<open>The children are serialized in order; the first failure is the failure of all.\<close>

fun collect :: "(exn + 'a) list \<Rightarrow> exn + 'a list" where
  "collect [] = Inr []"
| "collect (Inl e # xs) = Inl e"
| "collect (Inr y # xs) = (case collect xs of Inl e \<Rightarrow> Inl e | Inr ys \<Rightarrow> Inr (y # ys))"

fun null_if_absent :: "json option \<Rightarrow> json" where
  "null_if_absent None = JNull"
| "null_if_absent (Some j) = j"

definition array_of :: "(exn + json option) list \<Rightarrow> exn + json option" where
  "array_of xs = map_sum id (\<lambda>ys. Some (JArr (map null_if_absent ys))) (collect xs)"

fun members :: "string list \<Rightarrow> json option list \<Rightarrow> (string \<times> json) list" where
  "members (k # ks) (Some j # ys) = (k, j) # members ks ys"
| "members (k # ks) (None # ys) = members ks ys"
| "members ks ys = []"

definition object_of :: "string list \<Rightarrow> (exn + json option) list \<Rightarrow> exn + json option" where
  "object_of ks xs = map_sum id (\<lambda>ys. Some (JObj (members ks ys))) (collect xs)"

text \<open>
  What the encoder does with one value: a result at once, or the elements or members to
  serialize next, on the stack extended by the object entered. The containers of the
  resolved tree are new, hence never on the stack.
\<close>

datatype node =
    Result "exn + json option"
  | Elements "addr list" "rval list"
  | Members "addr list" "(string \<times> rval) list"

definition heap_node :: "'u world \<Rightarrow> addr list \<Rightarrow> addr \<Rightarrow> node" where
  "heap_node w st a =
     (if a \<in> set st then Result (Inl (TypeError ''Converting circular structure to JSON''))
      else if is_array (obj_at w a)
      then Elements (a # st) (map (\<lambda>s. RVal (slot_value s)) (slots (obj_at w a)))
      else Members (a # st)
             (map (\<lambda>k. (k, RVal (get_prop (obj_at w a) k))) (for_in_keys (obj_at w a))))"

fun tree_node :: "'u world \<Rightarrow> addr list \<Rightarrow> rval \<Rightarrow> node" where
  "tree_node w st (RVal (VRef a)) = heap_node w st a"
| "tree_node w st (RVal v) = Result (primitive v)"
| "tree_node w st (RArray rs) = Elements st rs"
| "tree_node w st (RObject pr kvs) =
     Members st (map (\<lambda>k. (k, case map_of kvs k of Some r \<Rightarrow> r | None \<Rightarrow> RVal VUndefined))
                     (own_key_order (map fst kvs)))"

definition expand :: "'u world \<Rightarrow> addr list \<Rightarrow> rval \<Rightarrow> node" where
  "expand w st r = tree_node w st (after_toJSON w r)"

lemma size_elem: "x \<in> set rs \<Longrightarrow> size x < size (RArray rs)"
  by (induction rs) auto

lemma size_member: "(k, x) \<in> set kvs \<Longrightarrow> size x < size (RObject pr kvs)"
  by (induction kvs) auto

lemma after_toJSON_cases: "after_toJSON w r = r \<or> (\<exists>v. after_toJSON w r = RVal v)"
  by (auto simp: after_toJSON_def split: option.splits)

text \<open>
  The encoder ends on every heap: an object is entered only when it is not on the stack,
  so the objects of the heap that are not on the stack get fewer; inside the resolved
  tree the value gets smaller.
\<close>

definition room :: "'u world \<Rightarrow> addr list \<Rightarrow> nat" where
  "room w st = length (heap w) - card (set st \<inter> {..<length (heap w)})"

lemma room_push: "a \<notin> set st \<Longrightarrow> a < length (heap w) \<Longrightarrow> room w (a # st) < room w st"
proof -
  assume a: "a \<notin> set st" "a < length (heap w)"
  let ?V = "{..<length (heap w)}"
  have fin: "finite (set st \<inter> ?V)" by simp
  have "set (a # st) \<inter> ?V = insert a (set st \<inter> ?V)" using a by auto
  moreover have "a \<notin> set st \<inter> ?V" using a by simp
  ultimately have c: "card (set (a # st) \<inter> ?V) = Suc (card (set st \<inter> ?V))"
    using fin by simp
  have "insert a (set st \<inter> ?V) \<subseteq> ?V" using a by auto
  then have "card (insert a (set st \<inter> ?V)) \<le> card ?V" by (intro card_mono) auto
  then have "Suc (card (set st \<inter> ?V)) \<le> length (heap w)" using a fin by simp
  then show ?thesis unfolding room_def using c by linarith
qed

lemma heap_node_Elements:
  assumes "heap_node w st a = Elements st' rs"
  shows "room w st' < room w st"
proof -
  from assms have a: "a \<notin> set st" "is_array (obj_at w a)" "st' = a # st"
    by (auto simp: heap_node_def split: if_splits)
  from a(2) have "a < length (heap w)" by (auto simp: obj_at_def split: if_splits)
  with a show ?thesis by (simp add: room_push)
qed

lemma heap_node_Members:
  assumes "heap_node w st a = Members st' kvs" "x \<in> set kvs"
  shows "room w st' < room w st"
proof -
  from assms(1) have a: "a \<notin> set st" "st' = a # st"
    and kvs: "kvs = map (\<lambda>k. (k, RVal (get_prop (obj_at w a) k))) (for_in_keys (obj_at w a))"
    by (auto simp: heap_node_def split: if_splits)
  have "a < length (heap w)"
  proof (rule ccontr)
    assume "\<not> a < length (heap w)"
    then have "kvs = []" using kvs by (simp add: obj_at_def for_in_keys_def own_key_order_def)
    with assms(2) show False by simp
  qed
  with a show ?thesis by (simp add: room_push)
qed

lemma expand_Elements:
  assumes "expand w st r = Elements st' rs" "x \<in> set rs"
  shows "room w st' < room w st \<or> (room w st' = room w st \<and> size x < size r)"
proof (cases "after_toJSON w r")
  case (RVal v)
  with assms show ?thesis
    by (cases v) (auto simp: expand_def dest: heap_node_Elements)
next
  case (RArray rs')
  with after_toJSON_cases[of w r] have "r = RArray rs'" by auto
  with assms RArray show ?thesis by (auto simp: expand_def size_elem simp del: rval.size)
next
  case (RObject pr kvs)
  with assms show ?thesis by (simp add: expand_def)
qed

lemma expand_Members:
  assumes "expand w st r = Members st' kvs" "x \<in> set kvs"
  shows "room w st' < room w st \<or> (room w st' = room w st \<and> size (snd x) < size r)"
proof (cases "after_toJSON w r")
  case (RVal v)
  with assms show ?thesis
    by (cases v) (auto simp: expand_def dest: heap_node_Members)
next
  case (RArray rs')
  with assms show ?thesis by (simp add: expand_def)
next
  case (RObject pr kvs')
  with after_toJSON_cases[of w r] have r: "r = RObject pr kvs'" by auto
  from assms RObject obtain k where
    x: "x = (k, case map_of kvs' k of Some r' \<Rightarrow> r' | None \<Rightarrow> RVal VUndefined)" and "st' = st"
    by (auto simp: expand_def)
  have "size (snd x) < size r"
  proof (cases "map_of kvs' k")
    case None
    then show ?thesis using x r by simp
  next
    case (Some r')
    then have "(k, r') \<in> set kvs'" by (rule map_of_SomeD)
    then have "size r' < size (RObject pr kvs')" by (rule size_member)
    then show ?thesis using x r Some by simp
  qed
  with \<open>st' = st\<close> show ?thesis by simp
qed

function serialize :: "'u world \<Rightarrow> addr list \<Rightarrow> rval \<Rightarrow> exn + json option" where
  "serialize w st r =
     (case expand w st r of
        Result res \<Rightarrow> res
      | Elements st' rs \<Rightarrow> array_of (map (serialize w st') rs)
      | Members st' kvs \<Rightarrow> object_of (map fst kvs) (map (\<lambda>kv. serialize w st' (snd kv)) kvs))"
  by pat_completeness auto
termination
proof (relation "inv_image (less_than <*lex*> less_than) (\<lambda>(w, st, r). (room w st, size r))")
  show "wf (inv_image (less_than <*lex*> less_than) (\<lambda>(w, st, r). (room w st, size r)))"
    by (intro wf_inv_image wf_lex_prod wf_less_than)
next
  fix w :: "'a world" and st r st' rs x
  assume "expand w st r = Elements st' rs" "x \<in> set rs"
  from expand_Elements[OF this]
  show "((w, st', x), w, st, r)
          \<in> inv_image (less_than <*lex*> less_than) (\<lambda>(w, st, r). (room w st, size r))"
    by auto
next
  fix w :: "'a world" and st r st' kvs x
  assume "expand w st r = Members st' kvs" "x \<in> set kvs"
  from expand_Members[OF this]
  show "((w, st', snd x), w, st, r)
          \<in> inv_image (less_than <*lex*> less_than) (\<lambda>(w, st, r). (room w st, size r))"
    by auto
qed

declare serialize.simps [simp del]

subsection \<open>Layout of the text\<close>

text \<open>
  The indentation unit: a number gives that many spaces, at most ten; a string gives its
  first ten characters.
\<close>

datatype space = NoSpace | SpaceNum int | SpaceStr string

fun gap_of :: "space \<Rightarrow> string" where
  "gap_of NoSpace = []"
| "gap_of (SpaceNum k) = replicate (nat (min 10 k)) (CHR '' '')"
| "gap_of (SpaceStr s) = take 10 s"

definition string_of_int :: "int \<Rightarrow> string" where
  "string_of_int i = (if i < 0 then ''-'' @ string_of_nat (nat (- i)) else string_of_nat (nat i))"

definition hex_char :: "nat \<Rightarrow> char" where
  "hex_char d = ''0123456789abcdef'' ! d"

definition escape_char :: "char \<Rightarrow> string" where
  "escape_char c =
     (if c = CHR 0x22 then [CHR 0x5C, CHR 0x22]
      else if c = CHR 0x5C then [CHR 0x5C, CHR 0x5C]
      else if c = CHR 0x08 then [CHR 0x5C, CHR ''b'']
      else if c = CHR 0x09 then [CHR 0x5C, CHR ''t'']
      else if c = CHR 0x0A then [CHR 0x5C, CHR ''n'']
      else if c = CHR 0x0C then [CHR 0x5C, CHR ''f'']
      else if c = CHR 0x0D then [CHR 0x5C, CHR ''r'']
      else if (of_char c :: nat) < 32
      then [CHR 0x5C, CHR ''u'', CHR ''0'', CHR ''0'',
            hex_char ((of_char c :: nat) div 16), hex_char ((of_char c :: nat) mod 16)]
      else [c])"

definition quote :: "string \<Rightarrow> string" where
  "quote s = [CHR 0x22] @ concat (map escape_char s) @ [CHR 0x22]"

fun join :: "string \<Rightarrow> string list \<Rightarrow> string" where
  "join sep [] = []"
| "join sep [x] = x"
| "join sep (x # y # ys) = x @ sep @ join sep (y # ys)"

definition bracket :: "string \<Rightarrow> string \<Rightarrow> string \<Rightarrow> string \<Rightarrow> string list \<Rightarrow> string" where
  "bracket gap ind opening closing parts =
     (if parts = [] then opening @ closing
      else if gap = [] then opening @ join '','' parts @ closing
      else opening @ [CHR 0x0A] @ ind @ gap
           @ join ('','' @ [CHR 0x0A] @ ind @ gap) parts
           @ [CHR 0x0A] @ ind @ closing)"

fun render :: "string \<Rightarrow> string \<Rightarrow> json \<Rightarrow> string" where
  "render gap ind JNull = ''null''"
| "render gap ind (JBool b) = (if b then ''true'' else ''false'')"
| "render gap ind (JNum i) = string_of_int i"
| "render gap ind (JStr s) = quote s"
| "render gap ind (JArr xs) = bracket gap ind ''['' '']'' (map (render gap (ind @ gap)) xs)"
| "render gap ind (JObj kvs) =
     bracket gap ind ''{'' ''}''
       (map (\<lambda>kv. quote (fst kv) @ (if gap = [] then '':'' else '': '')
                   @ render gap (ind @ gap) (snd kv)) kvs)"

text \<open>\<^verbatim>\<open>JSON.stringify(value, null, space)\<close>: the text, or undefined (\<open>None\<close>).\<close>

definition JSON_stringify :: "'u world \<Rightarrow> rval \<Rightarrow> space \<Rightarrow> exn + string option" where
  "JSON_stringify w r sp = map_sum id (map_option (render (gap_of sp) [])) (serialize w [] r)"

section \<open>The entry point\<close>

text \<open>
  \<^verbatim>\<open>asyncStringify\<close>: the transform starts at the root with the empty key, the
  synthetic holder and a new, empty set of visited objects; the resolved tree goes to the
  text renderer.
\<close>

fun settle :: "exn + 'a \<Rightarrow> 'a outcome" where
  "settle (Inl e) = Throw e"
| "settle (Inr x) = Done x"

definition asyncStringify ::
  "nat \<Rightarrow> 'u replacer \<Rightarrow> jsval \<Rightarrow> space \<Rightarrow> 'u world \<Rightarrow> string option outcome \<times> 'u world" where
  "asyncStringify fuel replacer val sp w =
     (case transform fuel replacer (RootHolder val) [] val ({}, w) of
        (Done transformedValue, (visited, w')) \<Rightarrow> (settle (JSON_stringify w' transformedValue sp), w')
      | (Throw e, (visited, w')) \<Rightarrow> (Throw e, w')
      | (Pending, (visited, w')) \<Rightarrow> (Pending, w'))"

text \<open>
  A replacer that, besides doing what \<open>rep\<close> does, keeps a log of its invocations: the
  holder, key and value it was called with and how it settled, in the order of the
  calls.
\<close>

type_synonym call = "holder \<times> string \<times> jsval \<times> (exn + jsval)"

definition logged :: "'u replacer \<Rightarrow> ('u \<times> call list) replacer" where
  "logged rep parent key val w =
     (case rep parent key val \<lparr>heap = heap w, user = fst (user w)\<rparr> of
        (r, new, u) \<Rightarrow> (r, new, (u, snd (user w) @ [(parent, key, val, r)])))"

section \<open>The branches of the transform\<close>

text \<open>
  The two loops of \<^verbatim>\<open>transform\<close> differ in the children they enumerate and in the
  container they build; \<open>children\<close> and \<open>assemble\<close> name the two, so that one equation
  covers both loops.
\<close>

definition children :: "obj \<Rightarrow> (string \<times> jsval) list" where
  "children ob =
     (if is_array ob then map (\<lambda>(i, s). (string_of_nat i, slot_value s)) (enumerate 0 (slots ob))
      else map (\<lambda>k. (k, get_prop ob k)) (for_in_keys ob))"

definition assemble :: "obj \<Rightarrow> rval list \<Rightarrow> rval" where
  "assemble ob = (if is_array ob then RArray else build_object (for_in_keys ob))"

definition is_leaf :: "jsval \<Rightarrow> bool" where
  "is_leaf v = (case v of VRef a \<Rightarrow> False | VBigInt i \<Rightarrow> False | _ \<Rightarrow> True)"

lemma each_map: "each f (map g xs) s = each (\<lambda>x. f (g x)) xs s"
  by (induction xs arbitrary: s) (auto split: prod.splits outcome.splits)

lemma transform_rejected:
  "call_replacer rep parent key val w = (Inl e, w1) \<Longrightarrow>
   transform (Suc n) rep parent key val (visited, w) = (Throw e, (visited, w1))"
  by simp

lemma transform_bigint:
  "call_replacer rep parent key val w = (Inr (VBigInt i), w1) \<Longrightarrow>
   transform (Suc n) rep parent key val (visited, w)
     = (Throw (TypeError ''Do not know how to serialize a BigInt''), (visited, w1))"
  by simp

lemma transform_leaf:
  "call_replacer rep parent key val w = (Inr v, w1) \<Longrightarrow> is_leaf v \<Longrightarrow>
   transform (Suc n) rep parent key val (visited, w) = (Done (RVal v), (visited, w1))"
  by (cases v) (simp_all add: is_leaf_def)

lemma transform_hook:
  "call_replacer rep parent key val w = (Inr (VRef a), w1) \<Longrightarrow> obj_hook (obj_at w1 a) = Some out \<Longrightarrow>
   transform (Suc n) rep parent key val (visited, w) = (Done (RVal out), (visited, w1))"
  by simp

lemma transform_circular:
  "call_replacer rep parent key val w = (Inr (VRef a), w1) \<Longrightarrow> obj_hook (obj_at w1 a) = None \<Longrightarrow>
   a \<in> visited \<Longrightarrow>
   transform (Suc n) rep parent key val (visited, w)
     = (Throw (TypeError ''Converting circular structure to JSON''), (visited, w1))"
  by simp

lemma transform_plain:
  "call_replacer rep parent key val w = (Inr (VRef a), w1) \<Longrightarrow> obj_hook (obj_at w1 a) = None \<Longrightarrow>
   a \<notin> visited \<Longrightarrow>
   transform (Suc n) rep parent key val (visited, w)
     = finally_delete a
         (case each (\<lambda>(k, v). transform n rep (Parent a) k v) (children (obj_at w1 a))
                 (insert a visited, w1) of
            (out, st') \<Rightarrow> (map_outcome (assemble (obj_at w1 a)) out, st'))"
  by (simp add: children_def assemble_def each_map case_prod_unfold)

lemma replaced_cases:
  obtains (leaf) "is_leaf v" | (bigint) i where "v = VBigInt i" | (ref) a where "v = VRef a"
  by (cases v) (auto simp: is_leaf_def)

section \<open>Serialization hooks\<close>

text \<open>
  C5. When the value the replacer returns is an object exposing a \<^verbatim>\<open>toJSON\<close> method,
  \<^verbatim>\<open>transform\<close> resolves to what the method returns, as it is: whatever that output
  is (a bigint, a container that is on the path already, a cyclic container), the call
  does not fail, the set of visited objects is the one it was, and the world is the one
  the single call of the replacer left, so the replacer has not been called on the
  output or on anything below it.
\<close>

theorem hook_output_returned_as_is:
  assumes "call_replacer rep parent key val w = (Inr (VRef a), w1)"
    and "obj_hook (obj_at w1 a) = Some out"
  shows "transform (Suc n) rep parent key val (visited, w) = (Done (RVal out), (visited, w1))"
  using assms by simp

definition hooked_world :: "unit world" where
  "hooked_world = \<lparr>heap = [Obj False [] [(''when'', VNum 1)] (VFun (VBigInt 7))], user = ()\<rparr>"

theorem hook_output_returned_as_is_witness:
  "transform (Suc 0) identity (Parent 0) ''self'' (VRef 0) ({0}, hooked_world)
     = (Done (RVal (VBigInt 7)), ({0}, hooked_world))"
proof -
  have call: "call_replacer identity (Parent 0) ''self'' (VRef 0) hooked_world
                = (Inr (VRef 0), hooked_world)"
    by (simp add: call_replacer_def identity_def hooked_world_def)
  have hook: "obj_hook (obj_at hooked_world 0) = Some (VBigInt 7)"
    by (simp add: obj_hook_def obj_at_def get_toJSON_def hooked_world_def)
  show ?thesis by (rule hook_output_returned_as_is[OF call hook])
qed

declare transform.simps(2) [simp del]

definition trace :: "('u \<times> call list) world \<Rightarrow> call list" where
  "trace w = snd (user w)"

definition big_int_error :: exn where
  "big_int_error = TypeError ''Do not know how to serialize a BigInt''"

definition circular_error :: exn where
  "circular_error = TypeError ''Converting circular structure to JSON''"

definition returned_bigint :: "call \<Rightarrow> bool" where
  "returned_bigint c = (case snd (snd (snd c)) of Inr (VBigInt i) \<Rightarrow> True | _ \<Rightarrow> False)"

definition below :: "addr set \<Rightarrow> call \<Rightarrow> bool" where
  "below V c = (case fst c of Parent b \<Rightarrow> b \<notin> V | RootHolder v \<Rightarrow> False)"

lemma call_logged:
  "call_replacer (logged rep) parent key val w = (r, w1) \<Longrightarrow>
   trace w1 = trace w @ [(parent, key, val, r)]"
  by (auto simp: call_replacer_def logged_def trace_def split: prod.splits)

lemma finally_delete_eq:
  "finally_delete a (out, (V, w)) = (out, (V - {a}, w))"
  by (simp add: finally_delete_def)

lemma transform_Suc_cases:
  assumes "transform (Suc n) rep parent key val (V, w) = res"
  obtains
    (rejected) e w1 where "call_replacer rep parent key val w = (Inl e, w1)"
      "res = (Throw e, (V, w1))"
  | (bigint) i w1 where "call_replacer rep parent key val w = (Inr (VBigInt i), w1)"
      "res = (Throw big_int_error, (V, w1))"
  | (leaf) v w1 where "call_replacer rep parent key val w = (Inr v, w1)" "is_leaf v"
      "res = (Done (RVal v), (V, w1))"
  | (hook) a w1 out where "call_replacer rep parent key val w = (Inr (VRef a), w1)"
      "obj_hook (obj_at w1 a) = Some out" "res = (Done (RVal out), (V, w1))"
  | (circular) a w1 where "call_replacer rep parent key val w = (Inr (VRef a), w1)"
      "obj_hook (obj_at w1 a) = None" "a \<in> V" "res = (Throw circular_error, (V, w1))"
  | (plain) a w1 outs V2 w2 where "call_replacer rep parent key val w = (Inr (VRef a), w1)"
      "obj_hook (obj_at w1 a) = None" "a \<notin> V"
      "each (\<lambda>(k, v). transform n rep (Parent a) k v) (children (obj_at w1 a)) (insert a V, w1)
         = (outs, (V2, w2))"
      "res = (map_outcome (assemble (obj_at w1 a)) outs, (V2 - {a}, w2))"
proof -
  obtain r w1 where call: "call_replacer rep parent key val w = (r, w1)"
    by (cases "call_replacer rep parent key val w")
  show thesis
  proof (cases r)
    case (Inl e)
    with call assms rejected show thesis by (simp add: transform_rejected del: transform.simps)
  next
    case (Inr v)
    show thesis
    proof (cases v rule: replaced_cases)
      case leaf
      with call Inr assms show thesis
        using that(3) by (simp add: transform_leaf del: transform.simps)
    next
      case (bigint i)
      with call Inr assms show thesis
        using that(2) by (simp add: transform_bigint big_int_error_def del: transform.simps)
    next
      case (ref a)
      show thesis
      proof (cases "obj_hook (obj_at w1 a)")
        case (Some hk)
        with call Inr ref assms show thesis
          using that(4) by (simp add: transform_hook del: transform.simps)
      next
        case None
        show thesis
        proof (cases "a \<in> V")
          case True
          with call Inr ref None assms show thesis
            using that(5) by (simp add: transform_circular circular_error_def del: transform.simps)
        next
          case False
          obtain outs V2 w2 where e:
            "each (\<lambda>(k, v). transform n rep (Parent a) k v) (children (obj_at w1 a))
               (insert a V, w1) = (outs, (V2, w2))"
            by (metis prod.exhaust)
          with call Inr ref None False assms show thesis
            using that(6) by (simp add: transform_plain finally_delete_eq del: transform.simps)
        qed
      qed
    qed
  qed
qed

text \<open>The set of visited objects after a call is the set before it.\<close>

lemma each_visited:
  assumes "\<And>x s out s'. f x s = (out, s') \<Longrightarrow> fst s' = fst s"
  shows "each f xs s = (outs, s') \<Longrightarrow> fst s' = fst s"
proof (induction xs arbitrary: s outs s')
  case Nil
  then show ?case by simp
next
  case (Cons x xs)
  obtain o1 s1 where f: "f x s = (o1, s1)" by (cases "f x s")
  from assms[OF f] have s1: "fst s1 = fst s" .
  show ?case
  proof (cases o1)
    case (Done y)
    obtain o2 s2 where e: "each f xs s1 = (o2, s2)" by (cases "each f xs s1")
    from Cons.IH[OF e] have "fst s2 = fst s1" .
    with Cons.prems f Done e s1 show ?thesis by simp
  next
    case (Throw e)
    with Cons.prems f s1 show ?thesis by simp
  next
    case Pending
    with Cons.prems f s1 show ?thesis by simp
  qed
qed

lemma transform_visited:
  "transform n rep parent key val (V, w) = (out, (V', w')) \<Longrightarrow> V' = V"
proof (induction n arbitrary: parent key val V w out V' w')
  case 0
  then show ?case by simp
next
  case (Suc n)
  from Suc.prems show ?case
  proof (cases rule: transform_Suc_cases)
    case (plain a w1 outs V2 w2)
    have "fst (V2, w2) = fst (insert a V, w1)"
    proof (rule each_visited[OF _ plain(4)])
      fix x s out' s'
      assume "(case x of (k, v) \<Rightarrow> transform n rep (Parent a) k v) s = (out', s')"
      then show "fst s' = fst s"
        using Suc.IH[of "Parent a" "fst x" "snd x" "fst s" "snd s" out' "fst s'" "snd s'"]
        by (simp add: case_prod_unfold)
    qed
    with plain show ?thesis by auto
  qed auto
qed

definition child_of :: "addr \<Rightarrow> addr set \<Rightarrow> call \<Rightarrow> bool" where
  "child_of a V c = (fst c = Parent a \<or> below (insert a V) c)"

lemma below_mono: "below (insert a V) c \<Longrightarrow> below V c"
  by (auto simp: below_def split: holder.splits)

lemma child_of_below: "a \<notin> V \<Longrightarrow> child_of a V c \<Longrightarrow> below V c"
  by (auto simp: child_of_def below_def split: holder.splits)

lemma each_trace:
  assumes step: "\<And>x w out V' w'. x \<in> set xs \<Longrightarrow> f x (V, w) = (out, (V', w')) \<Longrightarrow>
      V' = V \<and> (\<exists>new. trace w' = trace w @ new \<and> list_all P new
                  \<and> (list_ex returned_bigint new \<longrightarrow> out = Throw big_int_error))"
  shows "each f xs (V, w) = (outs, (V', w')) \<Longrightarrow>
      V' = V \<and> (\<exists>new. trace w' = trace w @ new \<and> list_all P new
                  \<and> (list_ex returned_bigint new \<longrightarrow> outs = Throw big_int_error))"
  using step
proof (induction xs arbitrary: w outs V' w')
  case Nil
  then show ?case by simp
next
  case (Cons x xs)
  obtain o1 V1 w1 where f: "f x (V, w) = (o1, (V1, w1))" by (metis prod.exhaust)
  from Cons.prems(2)[OF _ f] obtain new1 where
    1: "V1 = V" "trace w1 = trace w @ new1" "list_all P new1"
       "list_ex returned_bigint new1 \<longrightarrow> o1 = Throw big_int_error"
    by auto
  show ?case
  proof (cases o1)
    case (Done y)
    obtain o2 V2 w2 where e: "each f xs (V, w1) = (o2, (V2, w2))" by (metis prod.exhaust)
    have "V2 = V \<and> (\<exists>new. trace w2 = trace w1 @ new \<and> list_all P new
                  \<and> (list_ex returned_bigint new \<longrightarrow> o2 = Throw big_int_error))"
    proof (rule Cons.IH[OF e])
      fix x' w0 out0 V0 w0'
      assume "x' \<in> set xs" "f x' (V, w0) = (out0, (V0, w0'))"
      then show "V0 = V \<and> (\<exists>new. trace w0' = trace w0 @ new \<and> list_all P new
                  \<and> (list_ex returned_bigint new \<longrightarrow> out0 = Throw big_int_error))"
        using Cons.prems(2)[of x' w0 out0 V0 w0'] by simp
    qed
    then obtain new2 where
      2: "V2 = V" "trace w2 = trace w1 @ new2" "list_all P new2"
         "list_ex returned_bigint new2 \<longrightarrow> o2 = Throw big_int_error"
      by auto
    from Done 1 have nb: "\<not> list_ex returned_bigint new1" by auto
    from Cons.prems(1) f Done e 1 have res: "outs = map_outcome ((#) y) o2" "V' = V2" "w' = w2"
      by auto
    have "trace w' = trace w @ (new1 @ new2)" using 1 2 res by simp
    moreover have "list_all P (new1 @ new2)" using 1 2 by simp
    moreover have "list_ex returned_bigint (new1 @ new2) \<longrightarrow> outs = Throw big_int_error"
      using nb 2 res by auto
    ultimately show ?thesis using res 2 by blast
  next
    case (Throw e)
    with Cons.prems(1) f 1 show ?thesis by auto
  next
    case Pending
    with Cons.prems(1) f 1 show ?thesis by auto
  qed
qed

lemma transform_trace:
  "transform n (logged rep) parent key val (V, w) = (out, (V', w')) \<Longrightarrow>
   \<exists>new. trace w' = trace w @ new
     \<and> (n = 0 \<longrightarrow> new = [])
     \<and> (0 < n \<longrightarrow> (\<exists>r rest. new = (parent, key, val, r) # rest \<and> list_all (below V) rest))
     \<and> (list_ex returned_bigint new \<longrightarrow> out = Throw big_int_error)"
proof (induction n arbitrary: parent key val V w out V' w')
  case 0
  then show ?case by simp
next
  case (Suc n)
  from Suc.prems show ?case
  proof (cases rule: transform_Suc_cases)
    case (rejected e w1)
    from call_logged[OF rejected(1)] rejected(2) show ?thesis
      by (auto simp: returned_bigint_def)
  next
    case (bigint i w1)
    from call_logged[OF bigint(1)] bigint(2) show ?thesis by auto
  next
    case (leaf v w1)
    from call_logged[OF leaf(1)] leaf(2,3) show ?thesis
      by (cases v) (auto simp: returned_bigint_def is_leaf_def)
  next
    case (hook a w1 hk)
    from call_logged[OF hook(1)] hook(3) show ?thesis by (auto simp: returned_bigint_def)
  next
    case (circular a w1)
    from call_logged[OF circular(1)] circular(4) show ?thesis by (auto simp: returned_bigint_def)
  next
    case (plain a w1 outs V2 w2)
    let ?f = "\<lambda>(k, v). transform n (logged rep) (Parent a) k v"
    have "V2 = insert a V \<and> (\<exists>new. trace w2 = trace w1 @ new \<and> list_all (child_of a V) new
            \<and> (list_ex returned_bigint new \<longrightarrow> outs = Throw big_int_error))"
    proof (rule each_trace[OF _ plain(4)])
      fix x w0 out0 V0 w0'
      assume run: "?f x (insert a V, w0) = (out0, (V0, w0'))"
      then have run': "transform n (logged rep) (Parent a) (fst x) (snd x) (insert a V, w0)
                         = (out0, (V0, w0'))"
        by (simp add: case_prod_unfold)
      from transform_visited[OF run'] have "V0 = insert a V" .
      moreover from Suc.IH[OF run'] obtain new where
        n: "trace w0' = trace w0 @ new" "n = 0 \<longrightarrow> new = []"
           "0 < n \<longrightarrow> (\<exists>r rest. new = (Parent a, fst x, snd x, r) # rest
                         \<and> list_all (below (insert a V)) rest)"
           "list_ex returned_bigint new \<longrightarrow> out0 = Throw big_int_error"
        by auto
      have "list_all (child_of a V) new"
      proof (cases n)
        case 0
        with n show ?thesis by simp
      next
        case (Suc m)
        with n obtain r rest where "new = (Parent a, fst x, snd x, r) # rest"
          "list_all (below (insert a V)) rest" by auto
        then show ?thesis by (auto simp: child_of_def list_all_iff)
      qed
      ultimately show "V0 = insert a V \<and> (\<exists>new. trace w0' = trace w0 @ new
          \<and> list_all (child_of a V) new
          \<and> (list_ex returned_bigint new \<longrightarrow> out0 = Throw big_int_error))"
        using n by blast
    qed
    then obtain new where
      n: "trace w2 = trace w1 @ new" "list_all (child_of a V) new"
         "list_ex returned_bigint new \<longrightarrow> outs = Throw big_int_error"
      by auto
    have "list_all (below V) new"
      using n(2) plain(3) by (auto simp: list_all_iff intro: child_of_below)
    moreover have "trace w' = trace w @ ((parent, key, val, Inr (VRef a)) # new)"
      using call_logged[OF plain(1)] n(1) plain(5) by simp
    moreover have "list_ex returned_bigint ((parent, key, val, Inr (VRef a)) # new)
                     \<longrightarrow> out = Throw big_int_error"
      using n(3) plain(5) by (auto simp: returned_bigint_def)
    ultimately show ?thesis by auto
  qed
qed

lemma serialize_primitive:
  assumes "\<And>a. v \<noteq> VRef a"
  shows "serialize w st (RVal v) = primitive v"
  using assms by (cases v) (auto simp: serialize.simps expand_def after_toJSON_def)

lemma asyncStringify_world:
  "snd (asyncStringify n rep val sp w) = snd (snd (transform n rep (RootHolder val) [] val ({}, w)))"
  by (simp add: asyncStringify_def split: prod.splits outcome.splits)

lemma asyncStringify_Throw:
  "transform n rep (RootHolder val) [] val ({}, w) = (Throw e, st) \<Longrightarrow>
   fst (asyncStringify n rep val sp w) = Throw e"
  by (simp add: asyncStringify_def split: prod.splits)

text \<open>
  C3. Whenever the replacer returns a bigint, at the root or at any node below it, the
  top-level call rejects with the TypeError that names the kind of value:
  \<^verbatim>\<open>Do not know how to serialize a BigInt\<close>. The log of the replacer's calls tells
  what it returned: the log starts empty, and one of the calls made during the run
  returned a bigint.
\<close>

theorem bigint_result_rejects:
  assumes "asyncStringify n (logged rep) val sp w = (out, w')"
    and "trace w = []"
    and "list_ex returned_bigint (trace w')"
  shows "out = Throw (TypeError ''Do not know how to serialize a BigInt'')"
proof -
  obtain res V1 w1 where t: "transform n (logged rep) (RootHolder val) [] val ({}, w) = (res, (V1, w1))"
    by (metis prod.exhaust)
  have w': "w' = w1" using asyncStringify_world[of n "logged rep" val sp w] assms(1) t by simp
  from transform_trace[OF t] assms(2,3) w' have "res = Throw big_int_error" by auto
  with t have "fst (asyncStringify n (logged rep) val sp w) = Throw big_int_error"
    by (simp add: asyncStringify_Throw)
  with assms(1) show ?thesis by (simp add: big_int_error_def)
qed

definition bigint_world :: "(unit \<times> call list) world" where
  "bigint_world =
     \<lparr>heap = [Obj False [] [(''id'', VNum 1), (''big'', VBigInt 123), (''z'', VNum 2)] VUndefined],
      user = ((), [])\<rparr>"

definition bigint_world_after :: "(unit \<times> call list) world" where
  "bigint_world_after =
     \<lparr>heap = heap bigint_world,
      user = ((), [(RootHolder (VRef 0), [], VRef 0, Inr (VRef 0)),
                   (Parent 0, ''id'', VNum 1, Inr (VNum 1)),
                   (Parent 0, ''big'', VBigInt 123, Inr (VBigInt 123))])\<rparr>"

lemma not_array_index_alpha:
  "\<not> is_array_index ''id''" "\<not> is_array_index ''big''" "\<not> is_array_index ''z''"
  by (simp_all add: is_array_index_def is_digit_def)

lemma bigint_world_run:
  "asyncStringify (Suc (Suc 0)) (logged identity) (VRef 0) NoSpace bigint_world
     = (Throw (TypeError ''Do not know how to serialize a BigInt''), bigint_world_after)"
  by (simp add: transform.simps(2) asyncStringify_def bigint_world_def bigint_world_after_def
      call_replacer_def logged_def identity_def obj_at_def obj_hook_def get_toJSON_def for_in_keys_def
      own_key_order_def not_array_index_alpha get_prop_def finally_delete_def)

theorem bigint_result_rejects_witness:
  "fst (asyncStringify (Suc (Suc 0)) (logged identity) (VRef 0) NoSpace bigint_world)
     = Throw (TypeError ''Do not know how to serialize a BigInt'')
   \<and> list_ex returned_bigint (trace bigint_world_after)"
proof -
  obtain out w' where
    run: "asyncStringify (Suc (Suc 0)) (logged identity) (VRef 0) NoSpace bigint_world = (out, w')"
    by (metis prod.exhaust)
  then have w': "w' = bigint_world_after" by (simp add: bigint_world_run)
  have tr: "trace bigint_world = []" by (simp add: trace_def bigint_world_def)
  have ex: "list_ex returned_bigint (trace bigint_world_after)"
    by (simp add: trace_def bigint_world_after_def returned_bigint_def)
  have "out = Throw (TypeError ''Do not know how to serialize a BigInt'')"
    using run tr ex unfolding w' by (rule bigint_result_rejects)
  with run ex show ?thesis by simp
qed






lemma collect_map_Inr: "collect (map Inr ys) = Inr ys"
  by (induction ys) auto








lemma string_of_nat_small [simp]:
  "string_of_nat 0 = ''0''" "string_of_nat (Suc 0) = ''1''" "string_of_nat (Suc (Suc 0)) = ''2''"
  by (simp_all add: string_of_nat.simps digit_char_def)





lemma own_key_order_Nil [simp]: "own_key_order [] = []"
  by (simp add: own_key_order_def)












lemma serialize_node:
  "serialize w st r =
     (case tree_node w st (after_toJSON w r) of
        Result res \<Rightarrow> res
      | Elements st' rs \<Rightarrow> array_of (map (serialize w st') rs)
      | Members st' kvs \<Rightarrow> object_of (map fst kvs) (map (\<lambda>kv. serialize w st' (snd kv)) kvs))"
  by (simp add: serialize.simps[of w st r] expand_def)


lemmas serialize_keyed = serialize_node[of _ _ "RObject pr kvs" for pr kvs]

lemma not_index_alpha [simp]: "\<not> is_digit c \<Longrightarrow> \<not> is_array_index (c # s)"
  by (simp add: is_array_index_def)

















lemma index_one [simp]: "is_array_index ''1''"
  by (simp add: is_array_index_def is_digit_def decimal_value_def digit_value_def)






text \<open>
  The transform again, with the path of the recursion made explicit: \<open>anc\<close> lists the
  containers whose children are being processed, innermost first. The copy does what
  \<^verbatim>\<open>transform\<close> does and, besides, reports whether the set of visited objects was the
  set of the containers on the path at the entry of every call made, and again after
  every \<^verbatim>\<open>finally\<close> block.
\<close>

primrec transform_path ::
  "nat \<Rightarrow> 'u replacer \<Rightarrow> holder \<Rightarrow> string \<Rightarrow> jsval \<Rightarrow> addr list \<Rightarrow> addr set \<times> 'u world
     \<Rightarrow> (rval outcome \<times> (addr set \<times> 'u world)) \<times> bool" where
  "transform_path 0 rep parent key val anc st = ((Pending, st), fst st = set anc)"
| "transform_path (Suc n) rep parent key val anc st =
     (case st of (visited, w) \<Rightarrow>
      (case call_replacer rep parent key val w of
         (Inl e, w1) \<Rightarrow> ((Throw e, (visited, w1)), visited = set anc)
       | (Inr replaced, w1) \<Rightarrow>
           (case replaced of
              VRef a \<Rightarrow>
                (case obj_hook (obj_at w1 a) of
                   Some out \<Rightarrow> ((Done (RVal out), (visited, w1)), visited = set anc)
                 | None \<Rightarrow>
                     if a \<in> visited
                     then ((Throw (TypeError ''Converting circular structure to JSON''),
                            (visited, w1)), visited = set anc)
                     else (case each (\<lambda>(k, v) (s, ok).
                                        case transform_path n rep (Parent a) k v (a # anc) s of
                                          (res, ok') \<Rightarrow> (fst res, (snd res, ok \<and> ok')))
                                     (children (obj_at w1 a)) ((insert a visited, w1), True) of
                             (outs, ((visited', w2), ok)) \<Rightarrow>
                               ((map_outcome (assemble (obj_at w1 a)) outs, (visited' - {a}, w2)),
                                visited = set anc \<and> ok \<and> visited' - {a} = set anc)))
            | VBigInt i \<Rightarrow>
                ((Throw (TypeError ''Do not know how to serialize a BigInt''), (visited, w1)),
                 visited = set anc)
            | _ \<Rightarrow> ((Done (RVal replaced), (visited, w1)), visited = set anc))))"

lemma each_path:
  assumes "\<And>k v w. f' (k, v) ((V, w), ok) =
             (case f (k, v) (V, w) of (out, st') \<Rightarrow> (out, (st', ok)))"
    and "\<And>x s out s'. f x s = (out, s') \<Longrightarrow> fst s' = fst s"
  shows "each f' kvs ((V, w), ok) = (case each f kvs (V, w) of (outs, st') \<Rightarrow> (outs, (st', ok)))"
proof (induction kvs arbitrary: w)
  case Nil
  then show ?case by simp
next
  case (Cons x kvs)
  obtain k v where x: "x = (k, v)" by (cases x)
  obtain o1 V1 w1 where f: "f (k, v) (V, w) = (o1, (V1, w1))" by (metis prod.exhaust)
  from assms(2)[OF f] have V1: "V1 = V" by simp
  from assms(1)[of k v w] f have f': "f' (k, v) ((V, w), ok) = (o1, ((V, w1), ok))"
    by (simp add: V1)
  show ?case
  proof (cases o1)
    case (Done y)
    with x f f' V1 Cons.IH[of w1] show ?thesis by (simp split: prod.splits)
  next
    case (Throw e)
    with x f f' V1 show ?thesis by simp
  next
    case Pending
    with x f f' V1 show ?thesis by simp
  qed
qed

lemma transform_path_correct:
  "transform_path n rep parent key val anc (set anc, w)
     = (transform n rep parent key val (set anc, w), True)"
proof (induction n arbitrary: parent key val anc w)
  case 0
  then show ?case by simp
next
  case (Suc n)
  obtain res where res: "transform (Suc n) rep parent key val (set anc, w) = res" by simp
  then show ?case
  proof (cases rule: transform_Suc_cases)
    case (rejected e w1)
    then show ?thesis using res by simp
  next
    case (bigint i w1)
    then show ?thesis using res by (simp add: big_int_error_def)
  next
    case (leaf v w1)
    then show ?thesis using res by (cases v) (simp_all add: is_leaf_def)
  next
    case (hook a w1 out)
    then show ?thesis using res by simp
  next
    case (circular a w1)
    then show ?thesis using res by (simp add: circular_error_def)
  next
    case (plain a w1 outs V2 w2)
    let ?f = "\<lambda>(k, v). transform n rep (Parent a) k v"
    let ?f' = "\<lambda>(k, v) (s, ok). case transform_path n rep (Parent a) k v (a # anc) s of
                 (res, ok') \<Rightarrow> (fst res, (snd res, ok \<and> ok'))"
    have V2: "V2 = insert a (set anc)"
      using each_visited[of ?f, OF _ plain(4)] transform_visited
      by (metis (mono_tags, lifting) case_prod_beta fst_conv prod.collapse)
    have "each ?f' (children (obj_at w1 a)) ((insert a (set anc), w1), True)
            = (case each ?f (children (obj_at w1 a)) (insert a (set anc), w1) of
                 (outs, st') \<Rightarrow> (outs, (st', True)))"
    proof (rule each_path)
      fix k v w0 
      show "?f' (k, v) ((insert a (set anc), w0), True) =
             (case ?f (k, v) (insert a (set anc), w0) of (out, st') \<Rightarrow> (out, (st', True)))"
        using Suc.IH[of "Parent a" k v "a # anc" w0] by (simp split: prod.splits)
    next
      fix x s out s'
      assume "?f x s = (out, s')"
      then show "fst s' = fst s"
        using transform_visited[of n rep "Parent a" "fst x" "snd x" "fst s" "snd s" out "fst s'" "snd s'"]
        by (simp add: case_prod_unfold)
    qed
    with plain V2 res show ?thesis by simp
  qed
qed

lemmas run_defs =
  transform.simps(2) call_replacer_def identity_def obj_at_def obj_hook_def get_toJSON_def
  finally_delete_def for_in_keys_def own_key_order_def is_digit_def get_prop_def build_object_def

lemmas render_defs =
  JSON_stringify_def bracket_def string_of_int_def string_of_nat.simps digit_char_def
  object_of_def array_of_def

definition diamond_world :: "unit world" where
  "diamond_world =
     \<lparr>heap = [Obj False [] [(''x'', VNum 1)] VUndefined,
              Obj False [] [(''l'', VRef 0), (''r'', VRef 0)] VUndefined],
      user = ()\<rparr>"

lemma diamond_run:
  "asyncStringify (Suc (Suc (Suc 0))) identity (VRef 1) NoSpace diamond_world
     = (Done (Some (''{'' @ quote ''l'' @ '':{'' @ quote ''x'' @ '':1},''
                    @ quote ''r'' @ '':{'' @ quote ''x'' @ '':1}}'')), diamond_world)"
proof -
  let ?r = "RObject None [(''l'', RObject None [(''x'', RVal (VNum 1))]),
                          (''r'', RObject None [(''x'', RVal (VNum 1))])]"
  have t: "transform (Suc (Suc (Suc 0))) identity (RootHolder (VRef 1)) [] (VRef 1)
             ({}, diamond_world) = (Done ?r, ({}, diamond_world))"
    by (simp add: run_defs diamond_world_def)
  have "serialize diamond_world [] ?r
          = Inr (Some (JObj [(''l'', JObj [(''x'', JNum 1)]), (''r'', JObj [(''x'', JNum 1)])]))"
    by (simp add: serialize_keyed after_toJSON_def own_key_order_def is_digit_def
        serialize_primitive object_of_def)
  then have "JSON_stringify diamond_world ?r NoSpace
          = Inr (Some (''{'' @ quote ''l'' @ '':{'' @ quote ''x'' @ '':1},''
                    @ quote ''r'' @ '':{'' @ quote ''x'' @ '':1}}''))"
    by (simp add: render_defs)
  with t show ?thesis by (simp add: asyncStringify_def)
qed

text \<open>
  C4. During a call of \<^verbatim>\<open>transform\<close> that starts with the set of visited objects
  equal to the set of the containers on the path (empty at the top-level call), the two
  are equal at the entry of every nested call and after every \<^verbatim>\<open>finally\<close> block,
  however the children ended: the instrumented copy returns what \<^verbatim>\<open>transform\<close>
  returns and reports that the check never failed, and the call leaves the set as it
  found it. So an object reached twice through two siblings is not taken for a cycle:
  the diamond \<^verbatim>\<open>{l: s, r: s}\<close> with \<^verbatim>\<open>s = {x: 1}\<close> is serialized, \<^verbatim>\<open>s\<close> both times.
\<close>

theorem visited_is_the_active_path:
  "transform_path n rep parent key val anc (set anc, w)
     = (transform n rep parent key val (set anc, w), True)
   \<and> fst (snd (transform n rep parent key val (set anc, w))) = set anc
   \<and> asyncStringify (Suc (Suc (Suc 0))) identity (VRef 1) NoSpace diamond_world
     = (Done (Some (''{'' @ quote ''l'' @ '':{'' @ quote ''x'' @ '':1},''
                    @ quote ''r'' @ '':{'' @ quote ''x'' @ '':1}}'')), diamond_world)"
proof (intro conjI)
  show "transform_path n rep parent key val anc (set anc, w)
     = (transform n rep parent key val (set anc, w), True)"
    by (rule transform_path_correct)
  show "fst (snd (transform n rep parent key val (set anc, w))) = set anc"
    using transform_visited[of n rep parent key val "set anc" w]
    by (metis prod.collapse)
  show "asyncStringify (Suc (Suc (Suc 0))) identity (VRef 1) NoSpace diamond_world
     = (Done (Some (''{'' @ quote ''l'' @ '':{'' @ quote ''x'' @ '':1},''
                    @ quote ''r'' @ '':{'' @ quote ''x'' @ '':1}}'')), diamond_world)"
    by (rule diamond_run)
qed


















definition plain :: "'u world \<Rightarrow> addr \<Rightarrow> bool" where
  "plain w a = (obj_hook (obj_at w a) = None)"



































lemmas node_cases = serialize_node[unfolded after_toJSON_def]







































end
